theory Spec2Isabelle
  imports Main
begin

section \<open>The path-diagram builder of app.py\<close>

text \<open>
  The only logic of \<^verbatim>\<open>app.py\<close> that is not a call into a library is
  \<^verbatim>\<open>create_path_diagram\<close>: it reads the model specification text, collects the
  trimmed text on both sides of the first two \<^verbatim>\<open>~\<close>-separated pieces of every line
  that contains a \<^verbatim>\<open>~\<close>, deduplicates these names with a Python set, lays the
  names out on a zig-zag grid and emits one line segment per relation line.

  Python strings are modelled as \<^typ>\<open>string\<close>, a character being a code point below
  256. Python integers are \<^typ>\<open>int\<close>. Exceptions are values: a computation returns
  \<open>Inl\<close> of the exception or \<open>Inr\<close> of its result.
\<close>

datatype py_error = IndexError | KeyError | ValueError

subsection \<open>String primitives\<close>

text \<open>
  \<^verbatim>\<open>s.split(sep)\<close> for a separator of one character: the pieces between the
  occurrences of the separator, in order; one piece more than there are occurrences.
  The result is never empty, so the last branch of the \<open>case\<close> is never taken
  (lemma \<open>split_on_not_Nil\<close>).
\<close>

fun split_on :: "'a \<Rightarrow> 'a list \<Rightarrow> 'a list list" where
  "split_on c [] = [[]]"
| "split_on c (x # xs) =
     (if x = c then [] # split_on c xs
      else (case split_on c xs of
              p # ps \<Rightarrow> (x # p) # ps
            | [] \<Rightarrow> [[x]]))"

text \<open>
  \<^verbatim>\<open>str.isspace\<close> on the code points below 256: tab, line feed, vertical tab, form
  feed, carriage return, the four separators 0x1C to 0x1F, space, next line (0x85) and
  no-break space (0xA0).
\<close>

definition is_space :: "char \<Rightarrow> bool" where
  "is_space c \<longleftrightarrow>
     c \<in> set [CHR 0x09, CHR 0x0A, CHR 0x0B, CHR 0x0C, CHR 0x0D,
               CHR 0x1C, CHR 0x1D, CHR 0x1E, CHR 0x1F, CHR 0x20, CHR 0x85, CHR 0xA0]"

text \<open>\<^verbatim>\<open>s.strip()\<close>: drop the white space at both ends.\<close>

definition strip :: "string \<Rightarrow> string" where
  "strip s = rev (dropWhile is_space (rev (dropWhile is_space s)))"

text \<open>\<^verbatim>\<open>xs[i]\<close> for an index that is not negative.\<close>

definition index :: "'a list \<Rightarrow> nat \<Rightarrow> py_error + 'a" where
  "index xs i = (if i < length xs then Inr (xs ! i) else Inl IndexError)"

text \<open>\<^verbatim>\<open>d[k]\<close> on a dictionary.\<close>

definition lookup :: "('k \<rightharpoonup> 'v) \<Rightarrow> 'k \<Rightarrow> py_error + 'v" where
  "lookup d k = (case d k of None \<Rightarrow> Inl KeyError | Some v \<Rightarrow> Inr v)"

text \<open>
  \<^verbatim>\<open>a, b = xs\<close>: unpacking into two names raises \<^verbatim>\<open>ValueError\<close> unless the list
  has exactly two elements.
\<close>

fun unpack2 :: "'a list \<Rightarrow> py_error + ('a \<times> 'a)" where
  "unpack2 [a, b] = Inr (a, b)"
| "unpack2 _ = Inl ValueError"

abbreviation tilde :: char where
  "tilde \<equiv> CHR ''~''"

abbreviation newline :: char where
  "newline \<equiv> CHR 0x0A"

subsection \<open>The node list\<close>

text \<open>
  The inner list of the comprehension,
  \<^verbatim>\<open>[path.split('~')[0].strip(), path.split('~')[1].strip()]\<close>.
\<close>

definition path_terms :: "string \<Rightarrow> py_error + string list" where
  "path_terms path =
     (case index (split_on tilde path) 0 of
        Inl e \<Rightarrow> Inl e
      | Inr l \<Rightarrow>
          (case index (split_on tilde path) 1 of
             Inl e \<Rightarrow> Inl e
           | Inr r \<Rightarrow> Inr [strip l, strip r]))"

text \<open>
  The list of sublists,
  \<^verbatim>\<open>[[...] for path in model_desc.split('\n') if '~' in path]\<close>,
  over the lines still to be read.
\<close>

fun sublists :: "string list \<Rightarrow> py_error + string list list" where
  "sublists [] = Inr []"
| "sublists (path # rest) =
     (if tilde \<in> set path then
        (case path_terms path of
           Inl e \<Rightarrow> Inl e
         | Inr t \<Rightarrow>
             (case sublists rest of
                Inl e \<Rightarrow> Inl e
              | Inr ts \<Rightarrow> Inr (t # ts)))
      else sublists rest)"

text \<open>
  \<^verbatim>\<open>list(set(xs))\<close> yields every element of \<open>xs\<close> once, in an order that Python
  does not fix: for strings it follows their hashes, which are salted anew for every
  interpreter process. The order is therefore a parameter \<open>order\<close> of the model, the
  function from the elements inserted to the list read back, and \<open>set_iteration\<close>
  says what Python guarantees of it.
\<close>

definition set_iteration :: "('a list \<Rightarrow> 'a list) \<Rightarrow> bool" where
  "set_iteration order \<longleftrightarrow> (\<forall>xs. distinct (order xs) \<and> set (order xs) = set xs)"

text \<open>
  \<^verbatim>\<open>nodes = list(set([item for sublist in [...] for item in sublist]))\<close>.
  The global \<^verbatim>\<open>model_desc\<close> that the function reads is an argument here.
\<close>

definition nodes_of :: "(string list \<Rightarrow> string list) \<Rightarrow> string \<Rightarrow> py_error + string list" where
  "nodes_of order model_desc =
     (case sublists (split_on newline model_desc) of
        Inl e \<Rightarrow> Inl e
      | Inr ss \<Rightarrow> Inr (order (concat ss)))"

subsection \<open>Layout and edges\<close>

text \<open>
  \<^verbatim>\<open>for i, node in enumerate(nodes): pos[node] = (i * 2, i % 2 * 2)\<close>, from
  index \<open>i\<close> on, updating the dictionary \<open>pos\<close>.
\<close>

fun layout :: "nat \<Rightarrow> string list \<Rightarrow> (string \<rightharpoonup> int \<times> int) \<Rightarrow> (string \<rightharpoonup> int \<times> int)" where
  "layout i [] pos = pos"
| "layout i (node # rest) pos =
     layout (Suc i) rest (pos(node \<mapsto> (int i * 2, int i mod 2 * 2)))"

text \<open>
  The loop that fills \<^verbatim>\<open>edge_x\<close> and \<^verbatim>\<open>edge_y\<close>, over the lines still to be
  read. \<^verbatim>\<open>None\<close> separates two segments.
\<close>

fun edges :: "(string \<rightharpoonup> int \<times> int) \<Rightarrow> string list \<Rightarrow>
    int option list \<times> int option list \<Rightarrow> py_error + (int option list \<times> int option list)" where
  "edges pos [] acc = Inr acc"
| "edges pos (path # rest) (ex, ey) =
     (if tilde \<in> set path then
        (case unpack2 (split_on tilde path) of
           Inl e \<Rightarrow> Inl e
         | Inr (l, r) \<Rightarrow>
             (case lookup pos (strip l) of
                Inl e \<Rightarrow> Inl e
              | Inr ps \<Rightarrow>
                  (case lookup pos (strip r) of
                     Inl e \<Rightarrow> Inl e
                   | Inr pe \<Rightarrow>
                       edges pos rest
                         (ex @ [Some (fst ps), Some (fst pe), None],
                          ey @ [Some (snd ps), Some (snd pe), None]))))
      else edges pos rest (ex, ey))"

text \<open>\<^verbatim>\<open>[pos[node] for node in nodes]\<close>, read for the x and the y of the markers.\<close>

fun node_coords :: "(string \<rightharpoonup> int \<times> int) \<Rightarrow> string list \<Rightarrow> py_error + (int \<times> int) list" where
  "node_coords pos [] = Inr []"
| "node_coords pos (node # rest) =
     (case lookup pos node of
        Inl e \<Rightarrow> Inl e
      | Inr p \<Rightarrow>
          (case node_coords pos rest of
             Inl e \<Rightarrow> Inl e
           | Inr ps \<Rightarrow> Inr (p # ps)))"

subsection \<open>The figure\<close>

text \<open>
  The data handed to the plotting library: the two coordinate lists of the line trace
  and the coordinates and labels of the marker trace. The styling is constant and left
  out.
\<close>

record figure =
  edge_x :: "int option list"
  edge_y :: "int option list"
  node_x :: "int list"
  node_y :: "int list"
  node_text :: "string list"

text \<open>
  \<^verbatim>\<open>create_path_diagram(model)\<close>. The argument \<open>model\<close> is of any type; the
  specification text is the global the function reads.
\<close>

definition create_path_diagram ::
    "(string list \<Rightarrow> string list) \<Rightarrow> 'm \<Rightarrow> string \<Rightarrow> py_error + figure" where
  "create_path_diagram order model model_desc =
     (case nodes_of order model_desc of
        Inl e \<Rightarrow> Inl e
      | Inr nodes \<Rightarrow>
          (let pos = layout 0 nodes Map.empty in
           case edges pos (split_on newline model_desc) ([], []) of
             Inl e \<Rightarrow> Inl e
           | Inr (ex, ey) \<Rightarrow>
               (case node_coords pos nodes of
                  Inl e \<Rightarrow> Inl e
                | Inr ps \<Rightarrow>
                    Inr \<lparr>edge_x = ex, edge_y = ey,
                         node_x = map fst ps, node_y = map snd ps,
                         node_text = nodes\<rparr>)))"

subsection \<open>The call as a transformer of the program state\<close>

text \<open>
  The same function statement by statement, on the state that a call can touch: the
  global \<^verbatim>\<open>model_desc\<close> that it reads, all the other state of the program (\<open>g_rest\<close>),
  the parameter \<^verbatim>\<open>model\<close> and the local variables \<^verbatim>\<open>nodes\<close>, \<^verbatim>\<open>pos\<close>,
  \<^verbatim>\<open>edge_x\<close> and \<^verbatim>\<open>edge_y\<close>.
\<close>

record ('m, 'g) py_state =
  g_model_desc :: string
  g_rest :: 'g
  v_model :: 'm
  v_nodes :: "string list"
  v_pos :: "string \<rightharpoonup> int \<times> int"
  v_edge_x :: "int option list"
  v_edge_y :: "int option list"

text \<open>
  The state when the body starts: the globals of the caller, the parameter bound, and the
  locals not yet assigned (they are assigned before they are read).
\<close>

definition enter :: "'m \<Rightarrow> string \<times> 'g \<Rightarrow> ('m, 'g) py_state" where
  "enter model g =
     \<lparr>g_model_desc = fst g, g_rest = snd g, v_model = model,
      v_nodes = [], v_pos = Map.empty, v_edge_x = [], v_edge_y = []\<rparr>"

text \<open>What is left of the state when the call is over: the globals.\<close>

definition leave :: "('m, 'g) py_state \<Rightarrow> string \<times> 'g" where
  "leave s = (g_model_desc s, g_rest s)"

text \<open>
  One statement after another. A statement yields the exception it raises, if any, and
  the state it leaves; an exception ends the body.
\<close>

definition andthen ::
    "('s \<Rightarrow> py_error option \<times> 's) \<Rightarrow> ('s \<Rightarrow> py_error option \<times> 's) \<Rightarrow> 's \<Rightarrow> py_error option \<times> 's" where
  "andthen f g s = (case f s of (None, s') \<Rightarrow> g s' | (Some e, s') \<Rightarrow> (Some e, s'))"

text \<open>The assignment to \<^verbatim>\<open>nodes\<close>.\<close>

definition stmt_nodes ::
    "(string list \<Rightarrow> string list) \<Rightarrow> ('m, 'g) py_state \<Rightarrow> py_error option \<times> ('m, 'g) py_state" where
  "stmt_nodes order s =
     (case nodes_of order (g_model_desc s) of
        Inl e \<Rightarrow> (Some e, s)
      | Inr ns \<Rightarrow> (None, s\<lparr>v_nodes := ns\<rparr>))"

text \<open>\<^verbatim>\<open>pos = {}\<close> and the loop that fills it.\<close>

definition stmt_pos :: "('m, 'g) py_state \<Rightarrow> py_error option \<times> ('m, 'g) py_state" where
  "stmt_pos s = (None, s\<lparr>v_pos := layout 0 (v_nodes s) Map.empty\<rparr>)"

text \<open>
  \<^verbatim>\<open>edge_x = []\<close>, \<^verbatim>\<open>edge_y = []\<close> and the loop over the lines. When the loop raises,
  the entries appended so far go with the locals.
\<close>

definition stmt_edges :: "('m, 'g) py_state \<Rightarrow> py_error option \<times> ('m, 'g) py_state" where
  "stmt_edges s =
     (case edges (v_pos s) (split_on newline (g_model_desc s)) ([], []) of
        Inl e \<Rightarrow> (Some e, s\<lparr>v_edge_x := [], v_edge_y := []\<rparr>)
      | Inr (ex, ey) \<Rightarrow> (None, s\<lparr>v_edge_x := ex, v_edge_y := ey\<rparr>))"

text \<open>The figure that the \<^verbatim>\<open>return\<close> statement hands back.\<close>

definition stmt_return :: "('m, 'g) py_state \<Rightarrow> py_error + figure" where
  "stmt_return s =
     (case node_coords (v_pos s) (v_nodes s) of
        Inl e \<Rightarrow> Inl e
      | Inr ps \<Rightarrow>
          Inr \<lparr>edge_x = v_edge_x s, edge_y = v_edge_y s,
               node_x = map fst ps, node_y = map snd ps, node_text = v_nodes s\<rparr>)"

text \<open>
  The call \<^verbatim>\<open>create_path_diagram(model)\<close> in the globals \<open>g\<close>: what it returns or raises,
  and the globals after it.
\<close>

definition call_create_path_diagram ::
    "(string list \<Rightarrow> string list) \<Rightarrow> 'm \<Rightarrow> string \<times> 'g \<Rightarrow> (py_error + figure) \<times> (string \<times> 'g)" where
  "call_create_path_diagram order model g =
     (case andthen (stmt_nodes order) (andthen stmt_pos stmt_edges) (enter model g) of
        (Some e, s) \<Rightarrow> (Inl e, leave s)
      | (None, s) \<Rightarrow> (stmt_return s, leave s))"


subsection \<open>Notions for stating the properties\<close>

text \<open>
  The relation lines of a text are its lines that contain the marker \<^verbatim>\<open>~\<close>. The left
  part of a line is what stands before its first marker, the right part all that stands
  after it, and the second part what stands between the first marker and the next one
  (the right part itself when there is no other marker).
\<close>

definition relation_lines :: "string \<Rightarrow> string list" where
  "relation_lines model_desc = filter (\<lambda>l. tilde \<in> set l) (split_on newline model_desc)"

definition left_part :: "string \<Rightarrow> string" where
  "left_part l = takeWhile (\<lambda>x. x \<noteq> tilde) l"

definition right_part :: "string \<Rightarrow> string" where
  "right_part l = tl (dropWhile (\<lambda>x. x \<noteq> tilde) l)"

definition second_part :: "string \<Rightarrow> string" where
  "second_part l = takeWhile (\<lambda>x. x \<noteq> tilde) (right_part l)"

definition line_terms :: "string \<Rightarrow> string list" where
  "line_terms l = [strip (left_part l), strip (second_part l)]"

text \<open>Every relation line of the text contains the marker exactly once.\<close>

definition single_marker :: "string \<Rightarrow> bool" where
  "single_marker model_desc \<longleftrightarrow>
     (\<forall>l \<in> set (relation_lines model_desc). count_list l tilde = 1)"

text \<open>
  The edge list as the specification words it: one edge per relation line, from the
  trimmed left part to the trimmed right part, in the order of the lines. The node set
  is the union of the two ends of all edges.
\<close>

definition line_edge :: "string \<Rightarrow> string \<times> string" where
  "line_edge l = (strip (left_part l), strip (right_part l))"

definition spec_edges :: "string \<Rightarrow> (string \<times> string) list" where
  "spec_edges model_desc = map line_edge (relation_lines model_desc)"

definition spec_nodes :: "string \<Rightarrow> string set" where
  "spec_nodes model_desc = fst ` set (spec_edges model_desc) \<union> snd ` set (spec_edges model_desc)"

text \<open>
  The three entries that an edge adds to a coordinate list: the coordinate of its two
  ends in the dictionary \<open>pos\<close>, read through \<open>coord\<close>, and the separator.
\<close>

definition segment ::
    "(int \<times> int \<Rightarrow> int) \<Rightarrow> (string \<rightharpoonup> int \<times> int) \<Rightarrow> string \<times> string \<Rightarrow> int option list" where
  "segment coord pos e = [map_option coord (pos (fst e)), map_option coord (pos (snd e)), None]"

text \<open>The node list that the function computes, and the dictionary of positions.\<close>

definition node_names :: "(string list \<Rightarrow> string list) \<Rightarrow> string \<Rightarrow> string list" where
  "node_names order model_desc = order (concat (map line_terms (relation_lines model_desc)))"

definition positions :: "(string list \<Rightarrow> string list) \<Rightarrow> string \<Rightarrow> (string \<rightharpoonup> int \<times> int)" where
  "positions order model_desc = layout 0 (node_names order model_desc) Map.empty"


section \<open>Splitting\<close>

lemma split_on_not_Nil: "split_on c xs \<noteq> []"
  by (induction xs) (auto split: list.split)

lemma split_on_no_sep: "c \<notin> set xs \<Longrightarrow> split_on c xs = [xs]"
  by (induction xs) auto

lemma split_on_append: "split_on c (a @ c # b) = split_on c a @ split_on c b"
  by (induction a) (auto split: list.split simp: split_on_not_Nil)

lemma length_split_on: "length (split_on c xs) = Suc (count_list xs c)"
  by (induction xs) (auto split: list.split simp: split_on_not_Nil)

lemma split_on_first:
  "c \<in> set xs \<Longrightarrow>
     split_on c xs = takeWhile (\<lambda>x. x \<noteq> c) xs # split_on c (tl (dropWhile (\<lambda>x. x \<noteq> c) xs))"
  by (induction xs) (auto simp: split_on_no_sep split: list.split)

lemma count_right_part:
  "tilde \<in> set l \<Longrightarrow> count_list l tilde = Suc (count_list (right_part l) tilde)"
  unfolding right_part_def by (induction l) auto

lemma split_on_tilde:
  "tilde \<in> set l \<Longrightarrow> split_on tilde l = left_part l # split_on tilde (right_part l)"
  unfolding left_part_def right_part_def by (rule split_on_first)

text \<open>The two indexings of the comprehension are in range on a relation line.\<close>

lemma split_on_tilde2:
  assumes "tilde \<in> set l"
  shows "\<exists>ps. split_on tilde l = left_part l # second_part l # ps"
proof (cases "tilde \<in> set (right_part l)")
  case True
  from split_on_first [OF True] show ?thesis
    by (simp add: split_on_tilde [OF assms] second_part_def)
next
  case False
  then have "second_part l = right_part l"
    unfolding second_part_def by (auto simp: takeWhile_eq_all_conv)
  with False show ?thesis
    by (simp add: split_on_tilde [OF assms] split_on_no_sep)
qed

lemma split_on_tilde_once:
  assumes "count_list l tilde = 1"
  shows "split_on tilde l = [left_part l, right_part l]"
    and "second_part l = right_part l"
proof -
  from assms have in_l: "tilde \<in> set l"
    by (metis count_list_0_iff zero_neq_one)
  with assms have "count_list (right_part l) tilde = 0"
    by (simp add: count_right_part)
  then have notin: "tilde \<notin> set (right_part l)"
    by (simp add: count_list_0_iff)
  then show "split_on tilde l = [left_part l, right_part l]"
    by (simp add: split_on_tilde [OF in_l] split_on_no_sep)
  from notin show "second_part l = right_part l"
    unfolding second_part_def by (auto simp: takeWhile_eq_all_conv)
qed

text \<open>The unpacking fails on a relation line with a second marker.\<close>

lemma split_on_tilde_many:
  assumes "tilde \<in> set l" and "count_list l tilde \<noteq> 1"
  shows "unpack2 (split_on tilde l) = Inl ValueError"
proof -
  have "length (split_on tilde l) = Suc (count_list l tilde)"
    by (rule length_split_on)
  moreover from assms have "count_list l tilde \<ge> 2"
    by (metis count_list_0_iff One_nat_def Suc_1 Suc_leI le_neq_implies_less not_gr_zero)
  ultimately have "length (split_on tilde l) \<ge> 3" by simp
  then show ?thesis
    by (cases "split_on tilde l" rule: unpack2.cases) auto
qed

lemma in_relation_lines: "l \<in> set (relation_lines d) \<Longrightarrow> tilde \<in> set l"
  by (simp add: relation_lines_def)

section \<open>The node list never fails\<close>

lemma path_terms_ok: "tilde \<in> set l \<Longrightarrow> path_terms l = Inr (line_terms l)"
  using split_on_tilde2 [of l] by (auto simp: path_terms_def index_def line_terms_def)

lemma sublists_ok: "sublists ls = Inr (map line_terms (filter (\<lambda>l. tilde \<in> set l) ls))"
  by (induction ls) (simp_all add: path_terms_ok)

lemma nodes_of_names: "nodes_of order d = Inr (node_names order d)"
  by (simp add: nodes_of_def sublists_ok relation_lines_def node_names_def)

lemma set_node_names:
  "set_iteration order \<Longrightarrow>
     set (node_names order d) = (\<Union>l \<in> set (relation_lines d). set (line_terms l))"
  by (simp add: set_iteration_def node_names_def)

lemma distinct_node_names: "set_iteration order \<Longrightarrow> distinct (node_names order d)"
  by (simp add: set_iteration_def node_names_def)

lemma set_iteration_remdups: "set_iteration remdups"
  by (simp add: set_iteration_def)

lemma set_iteration_rev_remdups: "set_iteration (rev \<circ> remdups)"
  by (simp add: set_iteration_def)

section \<open>Layout\<close>

lemma layout_other: "n \<notin> set ns \<Longrightarrow> layout i ns pos n = pos n"
  by (induction ns arbitrary: i pos) auto

lemma layout_dom: "dom (layout i ns pos) = dom pos \<union> set ns"
  by (induction ns arbitrary: i pos) auto

lemma layout_nth:
  "distinct ns \<Longrightarrow> k < length ns \<Longrightarrow>
     layout i ns pos (ns ! k) = Some (int (i + k) * 2, int (i + k) mod 2 * 2)"
proof (induction ns arbitrary: i k pos)
  case Nil
  then show ?case by simp
next
  case (Cons n ns)
  show ?case
  proof (cases k)
    case 0
    with Cons.prems show ?thesis by (simp add: layout_other)
  next
    case (Suc j)
    with Cons.prems Cons.IH [of j "Suc i"] show ?thesis by simp
  qed
qed

lemma node_coords_nth:
  "\<forall>k < length ms. pos (ms ! k) = Some (f k) \<Longrightarrow> node_coords pos ms = Inr (map f [0..<length ms])"
proof (induction ms arbitrary: f)
  case Nil
  then show ?case by simp
next
  case (Cons m ms)
  from Cons.prems have first: "pos m = Some (f 0)" by auto
  from Cons.prems have "\<forall>k < length ms. pos (ms ! k) = Some ((f \<circ> Suc) k)" by auto
  from Cons.IH [OF this] have "node_coords pos ms = Inr (map (f \<circ> Suc) [0..<length ms])" .
  with first show ?case
    by (simp add: lookup_def upt_conv_Cons map_Suc_upt [symmetric] del: upt_Suc)
qed

lemma node_coords_layout:
  assumes "distinct ns"
  shows "node_coords (layout 0 ns Map.empty) ns =
           Inr (map (\<lambda>k. (int k * 2, int k mod 2 * 2)) [0..<length ns])"
  by (rule node_coords_nth) (use assms layout_nth [of ns _ 0 Map.empty] in auto)

lemma terms_in_dom:
  assumes "set_iteration order" and "l \<in> set (relation_lines d)"
  shows "strip (left_part l) \<in> dom (positions order d)"
    and "strip (second_part l) \<in> dom (positions order d)"
  using assms by (auto simp: positions_def layout_dom set_node_names line_terms_def)

section \<open>The loop over the edges\<close>

lemma edges_filter:
  "edges pos ls acc = edges pos (filter (\<lambda>l. tilde \<in> set l) ls) acc"
proof (induction ls arbitrary: acc)
  case Nil
  show ?case by simp
next
  case (Cons l ls)
  obtain ex ey where acc: "acc = (ex, ey)" by (cases acc)
  show ?case
    unfolding acc using Cons.IH
    by (simp split: sum.split prod.split)
qed

lemma edges_ok:
  assumes "\<forall>l \<in> set ls. tilde \<in> set l \<longrightarrow>
      count_list l tilde = 1 \<and> strip (left_part l) \<in> dom pos \<and> strip (right_part l) \<in> dom pos"
  shows "edges pos ls (ex, ey) =
      Inr (ex @ concat (map (segment fst pos) (map line_edge (filter (\<lambda>l. tilde \<in> set l) ls))),
           ey @ concat (map (segment snd pos) (map line_edge (filter (\<lambda>l. tilde \<in> set l) ls))))"
  using assms
proof (induction ls arbitrary: ex ey)
  case Nil
  then show ?case by simp
next
  case (Cons l ls)
  show ?case
  proof (cases "tilde \<in> set l")
    case False
    with Cons show ?thesis by simp
  next
    case True
    with Cons.prems have once: "count_list l tilde = 1"
      and "strip (left_part l) \<in> dom pos" and "strip (right_part l) \<in> dom pos"
      by auto
    then obtain ps pe where ps: "pos (strip (left_part l)) = Some ps"
      and pe: "pos (strip (right_part l)) = Some pe"
      by auto
    from Cons.prems have "\<forall>l \<in> set ls. tilde \<in> set l \<longrightarrow>
      count_list l tilde = 1 \<and> strip (left_part l) \<in> dom pos \<and> strip (right_part l) \<in> dom pos"
      by simp
    note IH = Cons.IH [OF this]
    show ?thesis
      by (simp add: True split_on_tilde_once(1) [OF once] lookup_def ps pe IH
          segment_def line_edge_def)
  qed
qed

lemma edges_fail:
  assumes "\<forall>l \<in> set ls. tilde \<in> set l \<longrightarrow>
      strip (left_part l) \<in> dom pos \<and> strip (second_part l) \<in> dom pos"
    and "\<exists>l \<in> set ls. tilde \<in> set l \<and> count_list l tilde \<noteq> 1"
  shows "edges pos ls (ex, ey) = Inl ValueError"
  using assms
proof (induction ls arbitrary: ex ey)
  case Nil
  then show ?case by simp
next
  case (Cons l ls)
  show ?case
  proof (cases "tilde \<in> set l")
    case False
    with Cons show ?thesis by simp
  next
    case True
    show ?thesis
    proof (cases "count_list l tilde = 1")
      case False
      with True show ?thesis by (simp add: split_on_tilde_many)
    next
      case once: True
      with Cons.prems have later: "\<exists>l \<in> set ls. tilde \<in> set l \<and> count_list l tilde \<noteq> 1"
        by auto
      from Cons.prems True obtain ps pe where ps: "pos (strip (left_part l)) = Some ps"
        and pe: "pos (strip (right_part l)) = Some pe"
        by (auto simp: split_on_tilde_once(2) [OF once])
      from Cons.prems have "\<forall>l \<in> set ls. tilde \<in> set l \<longrightarrow>
          strip (left_part l) \<in> dom pos \<and> strip (second_part l) \<in> dom pos"
        by simp
      note IH = Cons.IH [OF this later]
      show ?thesis
        by (simp add: True split_on_tilde_once(1) [OF once] lookup_def ps pe IH)
    qed
  qed
qed

lemma edges_fail_any:
  assumes "\<exists>l \<in> set ls. tilde \<in> set l \<and> count_list l tilde \<noteq> 1"
  shows "\<exists>e. edges pos ls acc = Inl e"
  using assms
proof (induction ls arbitrary: acc)
  case Nil
  then show ?case by simp
next
  case (Cons l ls)
  obtain ex ey where acc: "acc = (ex, ey)" by (cases acc)
  show ?case
  proof (cases "tilde \<in> set l \<and> count_list l tilde \<noteq> 1")
    case True
    then show ?thesis by (simp add: acc split_on_tilde_many)
  next
    case False
    with Cons.prems have "\<exists>l \<in> set ls. tilde \<in> set l \<and> count_list l tilde \<noteq> 1"
      by auto
    from Cons.IH [OF this] show ?thesis
      unfolding acc by (simp split: sum.split prod.split)
  qed
qed

section \<open>The whole function\<close>

text \<open>The function reads the text through its relation lines only.\<close>

lemma cpd_unfold:
  "create_path_diagram order model d =
     (case edges (positions order d) (relation_lines d) ([], []) of
        Inl e \<Rightarrow> Inl e
      | Inr (ex, ey) \<Rightarrow>
          (case node_coords (positions order d) (node_names order d) of
             Inl e \<Rightarrow> Inl e
           | Inr ps \<Rightarrow>
               Inr \<lparr>edge_x = ex, edge_y = ey, node_x = map fst ps, node_y = map snd ps,
                    node_text = node_names order d\<rparr>))"
  unfolding create_path_diagram_def nodes_of_names relation_lines_def positions_def
  by (simp add: Let_def edges_filter [of _ "split_on newline d"])

text \<open>The result on a text whose relation lines have one marker each.\<close>

lemma cpd_ok:
  assumes "set_iteration order" and "single_marker d"
  shows "create_path_diagram order model d =
     Inr \<lparr>edge_x = concat (map (segment fst (positions order d)) (spec_edges d)),
          edge_y = concat (map (segment snd (positions order d)) (spec_edges d)),
          node_x = map (\<lambda>k. int k * 2) [0..<length (node_names order d)],
          node_y = map (\<lambda>k. int k mod 2 * 2) [0..<length (node_names order d)],
          node_text = node_names order d\<rparr>"
proof -
  let ?pos = "positions order d"
  have "\<forall>l \<in> set (relation_lines d). tilde \<in> set l \<longrightarrow>
      count_list l tilde = 1 \<and> strip (left_part l) \<in> dom ?pos \<and> strip (right_part l) \<in> dom ?pos"
    using assms terms_in_dom [OF assms(1)]
    by (auto simp: single_marker_def split_on_tilde_once(2) [symmetric] simp del: One_nat_def)
  from edges_ok [OF this, of "[]" "[]"]
  have "edges ?pos (relation_lines d) ([], []) =
      Inr (concat (map (segment fst ?pos) (spec_edges d)),
           concat (map (segment snd ?pos) (spec_edges d)))"
    by (simp add: relation_lines_def spec_edges_def)
  moreover have "node_coords ?pos (node_names order d) =
      Inr (map (\<lambda>k. (int k * 2, int k mod 2 * 2)) [0..<length (node_names order d)])"
    unfolding positions_def
    by (rule node_coords_layout [OF distinct_node_names [OF assms(1)]])
  ultimately show ?thesis
    by (simp add: cpd_unfold comp_def)
qed

text \<open>The result on any other text.\<close>

lemma not_single_marker:
  "\<not> single_marker d \<Longrightarrow> \<exists>l \<in> set (relation_lines d). tilde \<in> set l \<and> count_list l tilde \<noteq> 1"
  by (auto simp: single_marker_def in_relation_lines simp del: One_nat_def)

lemma cpd_fail:
  assumes "set_iteration order" and "\<not> single_marker d"
  shows "create_path_diagram order model d = Inl ValueError"
proof -
  have "\<forall>l \<in> set (relation_lines d). tilde \<in> set l \<longrightarrow>
      strip (left_part l) \<in> dom (positions order d) \<and> strip (second_part l) \<in> dom (positions order d)"
    using terms_in_dom [OF assms(1)] by blast
  then have "edges (positions order d) (relation_lines d) ([], []) = Inl ValueError"
    using not_single_marker [OF assms(2)] by (rule edges_fail)
  then show ?thesis by (simp add: cpd_unfold)
qed

lemma cpd_fail_any:
  assumes "\<not> single_marker d"
  shows "\<exists>e. create_path_diagram order model d = Inl e"
proof -
  from edges_fail_any [OF not_single_marker [OF assms]]
  obtain e where "edges (positions order d) (relation_lines d) ([], []) = Inl e"
    by blast
  then show ?thesis by (simp add: cpd_unfold)
qed

lemma cpd_Inr_single_marker:
  "create_path_diagram order model d = Inr fig \<Longrightarrow> single_marker d"
  using cpd_fail_any [of d order model] by auto


lemma set_node_names_single:
  assumes "set_iteration order" and "single_marker d"
  shows "set (node_names order d) = spec_nodes d"
proof -
  have "set (line_terms l) = {fst (line_edge l), snd (line_edge l)}"
    if "l \<in> set (relation_lines d)" for l
  proof -
    from assms(2) that have "count_list l tilde = 1" by (simp add: single_marker_def)
    then have "second_part l = right_part l" by (rule split_on_tilde_once(2))
    then show ?thesis by (simp add: line_terms_def line_edge_def)
  qed
  then have "(\<Union>l \<in> set (relation_lines d). set (line_terms l)) =
      (\<Union>l \<in> set (relation_lines d). {fst (line_edge l), snd (line_edge l)})"
    by simp
  also have "\<dots> = spec_nodes d"
    by (auto simp: spec_nodes_def spec_edges_def)
  finally show ?thesis
    by (simp add: set_node_names [OF assms(1)])
qed

lemma cpd_cong:
  "relation_lines d = relation_lines d' \<Longrightarrow>
     create_path_diagram order model d = create_path_diagram order model' d'"
proof -
  assume same: "relation_lines d = relation_lines d'"
  then have names: "node_names order d = node_names order d'"
    by (simp add: node_names_def)
  then have pos: "positions order d = positions order d'"
    by (simp add: positions_def)
  show ?thesis
    unfolding cpd_unfold same names pos by (rule refl)
qed

lemma segment_nth:
  "k < length es \<Longrightarrow> take 3 (drop (3 * k) (concat (map (segment c pos) es))) = segment c pos (es ! k)"
proof (induction es arbitrary: k)
  case Nil
  then show ?case by simp
next
  case (Cons e es)
  have len: "length (segment c pos e) = 3" by (simp add: segment_def)
  show ?case
  proof (cases k)
    case 0
    with len show ?thesis by simp
  next
    case (Suc j)
    with Cons.prems have "j < length es" by simp
    from Cons.IH [OF this] len show ?thesis by (simp add: Suc)
  qed
qed

lemma sublists_skip: "tilde \<notin> set l \<Longrightarrow> sublists (xs @ l # ys) = sublists (xs @ ys)"
  by (simp add: sublists_ok)

lemma edges_skip:
  assumes "tilde \<notin> set l"
  shows "edges pos (xs @ l # ys) acc = edges pos (xs @ ys) acc"
proof -
  have "filter (\<lambda>l. tilde \<in> set l) (xs @ l # ys) = filter (\<lambda>l. tilde \<in> set l) (xs @ ys)"
    using assms by simp
  then show ?thesis
    by (metis edges_filter)
qed

lemma relation_lines_skip:
  assumes "tilde \<notin> set l" and "newline \<notin> set l"
  shows "relation_lines (a @ newline # l @ newline # b) = relation_lines (a @ newline # b)"
  using assms by (simp add: relation_lines_def split_on_append split_on_no_sep)

lemma set_iteration_Nil: "set_iteration order \<Longrightarrow> order [] = []"
  by (metis set_iteration_def set_empty)

lemma length_set_iteration:
  assumes "set_iteration o1" and "set_iteration o2"
  shows "length (o1 xs) = length (o2 xs)"
proof -
  from assms have "length (o1 xs) = card (set xs)" and "length (o2 xs) = card (set xs)"
    by (metis set_iteration_def distinct_card)+
  then show ?thesis by simp
qed

lemma length_segments: "length (concat (map (segment c pos) es)) = 3 * length es"
  by (induction es) (simp_all add: segment_def)





lemma kth_segment:
  assumes "set_iteration order" and "single_marker d" and k: "k < length (relation_lines d)"
  shows "\<exists>pa pb.
      positions order d (strip (left_part (relation_lines d ! k))) = Some pa \<and>
      positions order d (strip (right_part (relation_lines d ! k))) = Some pb \<and>
      take 3 (drop (3 * k) (concat (map (segment fst (positions order d)) (spec_edges d)))) =
        [Some (fst pa), Some (fst pb), None] \<and>
      take 3 (drop (3 * k) (concat (map (segment snd (positions order d)) (spec_edges d)))) =
        [Some (snd pa), Some (snd pb), None]"
proof -
  let ?l = "relation_lines d ! k"
  let ?pos = "positions order d"
  from k have l: "?l \<in> set (relation_lines d)" by simp
  with assms(2) have "count_list ?l tilde = 1"
    unfolding single_marker_def by blast
  then have "second_part ?l = right_part ?l" by (rule split_on_tilde_once(2))
  with terms_in_dom [OF assms(1) l]
  obtain pa pb where pa: "?pos (strip (left_part ?l)) = Some pa"
    and pb: "?pos (strip (right_part ?l)) = Some pb"
    by auto
  from k have k': "k < length (spec_edges d)" and e: "spec_edges d ! k = line_edge ?l"
    by (simp_all add: spec_edges_def)
  have "take 3 (drop (3 * k) (concat (map (segment fst ?pos) (spec_edges d)))) =
        [Some (fst pa), Some (fst pb), None]"
    and "take 3 (drop (3 * k) (concat (map (segment snd ?pos) (spec_edges d)))) =
        [Some (snd pa), Some (snd pb), None]"
    using segment_nth [OF k', of _ ?pos] pa pb
    by (simp_all add: e segment_def line_edge_def)
  with pa pb show ?thesis by blast
qed

lemma split_one_marker:
  assumes "tilde \<notin> set a" and "tilde \<notin> set b"
  shows "split_on tilde (a @ tilde # b) = [a, b]"
  using assms by (simp add: split_on_append split_on_no_sep)

section \<open>The state of the program\<close>

text \<open>No statement of the body changes a global.\<close>

lemma stmt_nodes_globals: "leave (snd (stmt_nodes order s)) = leave s"
  by (simp add: stmt_nodes_def leave_def split: sum.split)

lemma stmt_pos_globals: "leave (snd (stmt_pos s)) = leave s"
  by (simp add: stmt_pos_def leave_def)

lemma stmt_edges_globals: "leave (snd (stmt_edges s)) = leave s"
  by (simp add: stmt_edges_def leave_def split: sum.split prod.split)

lemma andthen_globals:
  assumes "\<And>s. leave (snd (f s)) = leave s" and "\<And>s. leave (snd (g s)) = leave s"
  shows "leave (snd (andthen f g s)) = leave s"
proof (cases "f s")
  case (Pair r s')
  with assms(1) [of s] have "leave s' = leave s" by simp
  with Pair assms(2) [of s'] show ?thesis
    by (cases r) (simp_all add: andthen_def)
qed

lemma body_globals:
  "leave (snd (andthen (stmt_nodes order) (andthen stmt_pos stmt_edges) s)) = leave s"
  by (intro andthen_globals stmt_nodes_globals stmt_pos_globals stmt_edges_globals)

lemma call_globals: "snd (call_create_path_diagram order model g) = g"
proof -
  obtain r s where run: "andthen (stmt_nodes order) (andthen stmt_pos stmt_edges) (enter model g) = (r, s)"
    by (cases "andthen (stmt_nodes order) (andthen stmt_pos stmt_edges) (enter model g)")
  with body_globals [of order "enter model g"] have "leave s = leave (enter model g)"
    by simp
  also have "\<dots> = g" by (simp add: leave_def enter_def)
  finally show ?thesis
    by (cases r) (simp_all add: call_create_path_diagram_def run)
qed

lemma call_result:
  "fst (call_create_path_diagram order model (d, rest)) = create_path_diagram order model d"
  by (simp add: call_create_path_diagram_def andthen_def stmt_nodes_def stmt_pos_def
      stmt_edges_def stmt_return_def enter_def create_path_diagram_def Let_def
      split: sum.split prod.split)

section \<open>The properties of the specification\<close>

text \<open>The definitions that a concrete run unfolds.\<close>

lemmas eval_defs = create_path_diagram_def nodes_of_def path_terms_def index_def strip_def
  is_space_def lookup_def

lemma count_list_distinct: "distinct xs \<Longrightarrow> x \<in> set xs \<Longrightarrow> count_list xs x = 1"
  by (induction xs) auto







text \<open>
  C3, as the code has it. An empty right-hand side raises nothing: in a text whose
  relation lines contain the marker once each, the \<open>k\<close>-th relation line, when its
  trimmed right part is empty, yields a node with the empty name, and the \<open>k\<close>-th
  segment of the two coordinate lists of the figure joins the position of its trimmed left
  part to the position of the empty name.
\<close>

theorem empty_right_side_is_a_node:
  assumes "set_iteration order" and "single_marker d"
    and "k < length (relation_lines d)" and "strip (right_part (relation_lines d ! k)) = []"
  shows "\<exists>fig pa pb. create_path_diagram order model d = Inr fig \<and>
      [] \<in> set (node_text fig) \<and>
      (strip (left_part (relation_lines d ! k)), []) \<in> set (spec_edges d) \<and>
      layout 0 (node_text fig) Map.empty (strip (left_part (relation_lines d ! k))) = Some pa \<and>
      layout 0 (node_text fig) Map.empty [] = Some pb \<and>
      take 3 (drop (3 * k) (edge_x fig)) = [Some (fst pa), Some (fst pb), None] \<and>
      take 3 (drop (3 * k) (edge_y fig)) = [Some (snd pa), Some (snd pb), None]"
proof -
  let ?l = "relation_lines d ! k"
  from assms(3) have l: "?l \<in> set (relation_lines d)" by simp
  with assms(4) have edge: "(strip (left_part ?l), []) \<in> set (spec_edges d)"
    unfolding spec_edges_def line_edge_def by (metis (no_types, lifting) imageI set_map)
  then have "[] \<in> spec_nodes d"
    unfolding spec_nodes_def by force
  then have node: "[] \<in> set (node_names order d)"
    by (simp add: set_node_names_single [OF assms(1,2)])
  from kth_segment [OF assms(1,2,3)] assms(4)
  obtain pa pb where "positions order d (strip (left_part ?l)) = Some pa"
    and "positions order d [] = Some pb"
    and "take 3 (drop (3 * k) (concat (map (segment fst (positions order d)) (spec_edges d)))) =
        [Some (fst pa), Some (fst pb), None]"
    and "take 3 (drop (3 * k) (concat (map (segment snd (positions order d)) (spec_edges d)))) =
        [Some (snd pa), Some (snd pb), None]"
    by auto
  with edge node show ?thesis
    by (simp add: cpd_ok [OF assms(1,2)] positions_def [symmetric])
qed

theorem empty_right_side_is_a_node_witness:
  "\<exists>fig pa pb. create_path_diagram remdups () ''A ~'' = Inr fig \<and>
      [] \<in> set (node_text fig) \<and>
      (strip (left_part (relation_lines ''A ~'' ! 0)), []) \<in> set (spec_edges ''A ~'') \<and>
      layout 0 (node_text fig) Map.empty (strip (left_part (relation_lines ''A ~'' ! 0))) = Some pa \<and>
      layout 0 (node_text fig) Map.empty [] = Some pb \<and>
      take 3 (drop (3 * 0) (edge_x fig)) = [Some (fst pa), Some (fst pb), None] \<and>
      take 3 (drop (3 * 0) (edge_y fig)) = [Some (snd pa), Some (snd pb), None]"
proof -
  have "single_marker ''A ~''" and "0 < length (relation_lines ''A ~'')"
    and "strip (right_part (relation_lines ''A ~'' ! 0)) = []"
    by (simp_all add: single_marker_def relation_lines_def right_part_def strip_def)
  with set_iteration_remdups show ?thesis
    by (rule empty_right_side_is_a_node)
qed

theorem empty_right_side_counterexample:
  "create_path_diagram remdups () ''A ~'' =
     Inr \<lparr>edge_x = [Some 0, Some 2, None], edge_y = [Some 0, Some 2, None],
          node_x = [0, 2], node_y = [0, 2], node_text = [''A'', '''']\<rparr>"
  by (simp add: eval_defs)

text \<open>
  C4. A line \<open>a ~ b\<close> with no other marker is unpacked into the two parts \<open>a\<close> and
  \<open>b\<close>, and the loop over the edges appends the positions of the trimmed \<open>a\<close> and the
  trimmed \<open>b\<close> and goes on; a line with more than one marker makes the unpacking, and
  with it the loop, raise \<^verbatim>\<open>ValueError\<close>. For the whole function: in a text whose
  relation lines contain the marker once each, a figure is returned, and the \<open>k\<close>-th
  segment of its coordinate lists joins the positions of the two trimmed parts of the
  \<open>k\<close>-th relation line; a returned figure means that every relation line was split in
  two; and a text with a line that contains the marker more than once makes the function
  raise, whatever the order of the set, with the \<^verbatim>\<open>ValueError\<close> of the unpacking when
  the order is one of a Python set.
\<close>

theorem second_marker_fails:
  "(tilde \<notin> set a \<and> tilde \<notin> set b \<longrightarrow>
      unpack2 (split_on tilde (a @ tilde # b)) = Inr (a, b) \<and>
      (pos (strip a) = Some pa \<and> pos (strip b) = Some pb \<longrightarrow>
         edges pos ((a @ tilde # b) # rest) (ex, ey) =
         edges pos rest (ex @ [Some (fst pa), Some (fst pb), None],
                         ey @ [Some (snd pa), Some (snd pb), None]))) \<and>
   (1 < count_list l tilde \<longrightarrow>
      unpack2 (split_on tilde l) = Inl ValueError \<and>
      edges pos (l # rest) (ex, ey) = Inl ValueError) \<and>
   (set_iteration order \<and> single_marker d \<longrightarrow>
      (\<exists>fig. create_path_diagram order model d = Inr fig \<and>
         length (edge_x fig) = 3 * length (relation_lines d) \<and>
         length (edge_y fig) = 3 * length (relation_lines d) \<and>
         (\<forall>k < length (relation_lines d). \<exists>u v pu pv.
            split_on tilde (relation_lines d ! k) = [u, v] \<and>
            layout 0 (node_text fig) Map.empty (strip u) = Some pu \<and>
            layout 0 (node_text fig) Map.empty (strip v) = Some pv \<and>
            take 3 (drop (3 * k) (edge_x fig)) = [Some (fst pu), Some (fst pv), None] \<and>
            take 3 (drop (3 * k) (edge_y fig)) = [Some (snd pu), Some (snd pv), None]))) \<and>
   (\<forall>fig. create_path_diagram order model d = Inr fig \<longrightarrow>
      (\<forall>l \<in> set (relation_lines d). split_on tilde l = [left_part l, right_part l])) \<and>
   ((\<exists>l \<in> set (split_on newline d). 1 < count_list l tilde) \<longrightarrow>
      (\<exists>e. create_path_diagram order model d = Inl e) \<and>
      (set_iteration order \<longrightarrow> create_path_diagram order model d = Inl ValueError))"
proof -
  have step: "unpack2 (split_on tilde (a @ tilde # b)) = Inr (a, b) \<and>
      (pos (strip a) = Some pa \<and> pos (strip b) = Some pb \<longrightarrow>
         edges pos ((a @ tilde # b) # rest) (ex, ey) =
         edges pos rest (ex @ [Some (fst pa), Some (fst pb), None],
                         ey @ [Some (snd pa), Some (snd pb), None]))"
    if "tilde \<notin> set a \<and> tilde \<notin> set b"
    using that by (simp add: split_one_marker lookup_def)
  have many: "unpack2 (split_on tilde l) = Inl ValueError \<and>
      edges pos (l # rest) (ex, ey) = Inl ValueError"
    if more: "1 < count_list l tilde"
  proof -
    from more have "tilde \<in> set l"
      by (metis count_list_0_iff not_less_zero)
    moreover from more have "count_list l tilde \<noteq> 1" by simp
    ultimately show ?thesis
      by (simp add: split_on_tilde_many del: One_nat_def)
  qed
  have whole: "\<exists>fig. create_path_diagram order model d = Inr fig \<and>
         length (edge_x fig) = 3 * length (relation_lines d) \<and>
         length (edge_y fig) = 3 * length (relation_lines d) \<and>
         (\<forall>k < length (relation_lines d). \<exists>u v pu pv.
            split_on tilde (relation_lines d ! k) = [u, v] \<and>
            layout 0 (node_text fig) Map.empty (strip u) = Some pu \<and>
            layout 0 (node_text fig) Map.empty (strip v) = Some pv \<and>
            take 3 (drop (3 * k) (edge_x fig)) = [Some (fst pu), Some (fst pv), None] \<and>
            take 3 (drop (3 * k) (edge_y fig)) = [Some (snd pu), Some (snd pv), None])"
    if ok: "set_iteration order \<and> single_marker d"
  proof -
    from ok have order: "set_iteration order" and single: "single_marker d" by simp_all
    have "\<exists>u v pu pv.
            split_on tilde (relation_lines d ! k) = [u, v] \<and>
            positions order d (strip u) = Some pu \<and>
            positions order d (strip v) = Some pv \<and>
            take 3 (drop (3 * k) (concat (map (segment fst (positions order d)) (spec_edges d)))) =
              [Some (fst pu), Some (fst pv), None] \<and>
            take 3 (drop (3 * k) (concat (map (segment snd (positions order d)) (spec_edges d)))) =
              [Some (snd pu), Some (snd pv), None]"
      if k: "k < length (relation_lines d)" for k
    proof -
      from k have "relation_lines d ! k \<in> set (relation_lines d)" by simp
      with single have "count_list (relation_lines d ! k) tilde = 1"
        unfolding single_marker_def by blast
      then have "split_on tilde (relation_lines d ! k) =
          [left_part (relation_lines d ! k), right_part (relation_lines d ! k)]"
        by (rule split_on_tilde_once(1))
      with kth_segment [OF order single k] show ?thesis by blast
    qed
    moreover have "length (concat (map (segment c (positions order d)) (spec_edges d))) =
        3 * length (relation_lines d)" for c
      unfolding length_segments by (simp add: spec_edges_def)
    ultimately show ?thesis
      by (simp add: cpd_ok [OF order single] positions_def [symmetric])
  qed
  have two: "\<forall>l \<in> set (relation_lines d). split_on tilde l = [left_part l, right_part l]"
    if "create_path_diagram order model d = Inr fig" for fig
  proof -
    from that have "single_marker d" by (rule cpd_Inr_single_marker)
    then show ?thesis
      by (simp add: single_marker_def split_on_tilde_once(1) del: One_nat_def)
  qed
  have fails: "(\<exists>e. create_path_diagram order model d = Inl e) \<and>
      (set_iteration order \<longrightarrow> create_path_diagram order model d = Inl ValueError)"
    if "\<exists>l \<in> set (split_on newline d). 1 < count_list l tilde"
  proof -
    from that obtain l where l: "l \<in> set (split_on newline d)" and more: "1 < count_list l tilde"
      by blast
    from more have "tilde \<in> set l"
      by (metis count_list_0_iff not_less_zero)
    with l have "l \<in> set (relation_lines d)"
      by (simp add: relation_lines_def)
    with more have bad: "\<not> single_marker d"
      by (auto simp: single_marker_def intro!: bexI [of _ l])
    then show ?thesis
      using cpd_fail_any [of d order model] cpd_fail [of order d model] by blast
  qed
  from step many whole two fails show ?thesis by blast
qed

theorem second_marker_fails_witness:
  "unpack2 (split_on tilde ''A ~ B'') = Inr (''A '', '' B'') \<and>
   edges [''A'' \<mapsto> (0, 0), ''B'' \<mapsto> (2, 2)] [''A ~ B''] ([], []) =
     Inr ([Some 0, Some 2, None], [Some 0, Some 2, None]) \<and>
   edges Map.empty [''A ~ B ~ C''] ([], []) = Inl ValueError \<and>
   create_path_diagram remdups () ''A ~ B ~ C'' = Inl ValueError \<and>
   (\<exists>fig. create_path_diagram remdups () ''A ~ B'' = Inr fig \<and>
      length (edge_x fig) = 3 \<and>
      (\<exists>u v pu pv. split_on tilde ''A ~ B'' = [u, v] \<and>
         layout 0 (node_text fig) Map.empty (strip u) = Some pu \<and>
         layout 0 (node_text fig) Map.empty (strip v) = Some pv \<and>
         take 3 (edge_x fig) = [Some (fst pu), Some (fst pv), None] \<and>
         take 3 (edge_y fig) = [Some (snd pu), Some (snd pv), None]))"
proof -
  note one = second_marker_fails [where a = "''A ''" and b = "'' B''"
      and pos = "[''A'' \<mapsto> (0, 0), ''B'' \<mapsto> (2, 2)]" and pa = "(0, 0)" and pb = "(2, 2)"
      and rest = "[]" and ex = "[]" and ey = "[]" and l = "''A ~ B ~ C''"
      and order = remdups and model = "()" and d = "''A ~ B''"]
  note two = second_marker_fails [where a = "''A ''" and b = "'' B''"
      and pos = Map.empty and pa = "(0, 0)" and pb = "(2, 2)"
      and rest = "[]" and ex = "[]" and ey = "[]" and l = "''A ~ B ~ C''"
      and order = remdups and model = "()" and d = "''A ~ B ~ C''"]
  have parts: "tilde \<notin> set ''A '' \<and> tilde \<notin> set '' B''" by simp
  have found: "[''A'' \<mapsto> (0, 0), ''B'' \<mapsto> (2, 2)] (strip ''A '') = Some (0, 0 :: int) \<and>
      [''A'' \<mapsto> (0, 0), ''B'' \<mapsto> (2, 2)] (strip '' B'') = Some (2, 2 :: int)"
    by (simp add: strip_def is_space_def)
  have more: "1 < count_list ''A ~ B ~ C'' tilde" by simp
  have single: "single_marker ''A ~ B''" and lines: "relation_lines ''A ~ B'' = [''A ~ B'']"
    by (simp_all add: single_marker_def relation_lines_def)
  have some: "\<exists>l \<in> set (split_on newline ''A ~ B ~ C''). 1 < count_list l tilde" by simp
  note step = one [THEN conjunct1, THEN mp, OF parts]
  from step [THEN conjunct1]
  have p1: "unpack2 (split_on tilde ''A ~ B'') = Inr (''A '', '' B'')" by simp
  from step [THEN conjunct2, THEN mp, OF found]
  have p2: "edges [''A'' \<mapsto> (0, 0), ''B'' \<mapsto> (2, 2)] [''A ~ B''] ([], []) =
     Inr ([Some 0, Some 2, None], [Some 0, Some 2, None])"
    by simp
  from two [THEN conjunct2, THEN conjunct1, THEN mp, OF more, THEN conjunct2]
  have p3: "edges Map.empty [''A ~ B ~ C''] ([], []) = Inl ValueError" .
  from two [THEN conjunct2, THEN conjunct2, THEN conjunct2, THEN conjunct2, THEN mp, OF some,
      THEN conjunct2, THEN mp, OF set_iteration_remdups]
  have p4: "create_path_diagram remdups () ''A ~ B ~ C'' = Inl ValueError" .
  from one [THEN conjunct2, THEN conjunct2, THEN conjunct1, THEN mp,
      OF conjI [OF set_iteration_remdups single]]
  have p5: "\<exists>fig. create_path_diagram remdups () ''A ~ B'' = Inr fig \<and>
      length (edge_x fig) = 3 \<and>
      (\<exists>u v pu pv. split_on tilde ''A ~ B'' = [u, v] \<and>
         layout 0 (node_text fig) Map.empty (strip u) = Some pu \<and>
         layout 0 (node_text fig) Map.empty (strip v) = Some pv \<and>
         take 3 (edge_x fig) = [Some (fst pu), Some (fst pv), None] \<and>
         take 3 (edge_y fig) = [Some (snd pu), Some (snd pv), None])"
    unfolding lines by (auto simp del: split_on.simps)
  from p1 p2 p3 p4 p5 show ?thesis by (intro conjI)
qed

text \<open>
  C5. No two nodes of a figure that the function returns have the same name, and the
  trimmed left part and the trimmed right part of every relation line occur exactly once
  in the node list, in however many lines they stand.
\<close>

theorem node_names_unique:
  assumes "set_iteration order" and "create_path_diagram order model d = Inr fig"
  shows "distinct (node_text fig) \<and>
     (\<forall>l \<in> set (relation_lines d).
        count_list (node_text fig) (strip (left_part l)) = 1 \<and>
        count_list (node_text fig) (strip (right_part l)) = 1)"
proof -
  from assms(2) have single: "single_marker d" by (rule cpd_Inr_single_marker)
  from cpd_ok [OF assms(1) this, of model] assms(2)
  have names: "node_text fig = node_names order d" by auto
  have dist: "distinct (node_names order d)"
    using assms(1) by (rule distinct_node_names)
  have "strip (left_part l) \<in> set (node_names order d) \<and>
      strip (right_part l) \<in> set (node_names order d)"
    if l: "l \<in> set (relation_lines d)" for l
  proof -
    from single l have "count_list l tilde = 1" by (simp add: single_marker_def)
    then have "second_part l = right_part l" by (rule split_on_tilde_once(2))
    then have "set (line_terms l) = {strip (left_part l), strip (right_part l)}"
      by (simp add: line_terms_def)
    with l show ?thesis
      unfolding set_node_names [OF assms(1)] by blast
  qed
  with dist show ?thesis
    by (simp add: names count_list_distinct del: One_nat_def)
qed

theorem node_names_unique_witness:
  "create_path_diagram remdups () (''A ~ B'' @ newline # ''C ~ A'') =
     Inr \<lparr>edge_x = [Some 4, Some 0, None, Some 2, Some 4, None],
          edge_y = [Some 0, Some 0, None, Some 2, Some 0, None],
          node_x = [0, 2, 4], node_y = [0, 2, 0], node_text = [''B'', ''C'', ''A'']\<rparr> \<and>
   count_list [''B'', ''C'', ''A''] ''A'' = 1 \<and> distinct [''B'', ''C'', ''A'']"
proof -
  let ?fig = "\<lparr>edge_x = [Some 4, Some 0, None, Some 2, Some 4, None],
          edge_y = [Some 0, Some 0, None, Some 2, Some 0, None],
          node_x = [0, 2, 4], node_y = [0, 2, 0], node_text = [''B'', ''C'', ''A'']\<rparr>"
  have fig: "create_path_diagram remdups () (''A ~ B'' @ newline # ''C ~ A'') = Inr ?fig"
    by (simp add: eval_defs)
  from node_names_unique [OF set_iteration_remdups fig] fig
  show ?thesis
    by (simp add: relation_lines_def left_part_def strip_def is_space_def)
qed

text \<open>
  C6. In a node list without duplicates, the node at index \<open>i\<close>, counted from 0, gets
  the position \<open>(2i, 2 (i mod 2))\<close>; the marker trace of a figure that the function
  returns has these coordinates at index \<open>k\<close>.
\<close>

theorem position_by_index:
  "(distinct nodes \<and> i < length nodes \<longrightarrow>
      layout 0 nodes Map.empty (nodes ! i) = Some (2 * int i, 2 * (int i mod 2))) \<and>
   (set_iteration order \<and> create_path_diagram order model d = Inr fig \<and>
    k < length (node_text fig) \<longrightarrow>
      node_x fig ! k = 2 * int k \<and> node_y fig ! k = 2 * (int k mod 2))"
proof (intro conjI impI; elim conjE)
  assume "distinct nodes" and "i < length nodes"
  then show "layout 0 nodes Map.empty (nodes ! i) = Some (2 * int i, 2 * (int i mod 2))"
    using layout_nth [of nodes i 0 Map.empty] by (simp add: mult.commute)
next
  assume order: "set_iteration order" and fig: "create_path_diagram order model d = Inr fig"
    and k: "k < length (node_text fig)"
  from fig have "single_marker d" by (rule cpd_Inr_single_marker)
  from cpd_ok [OF order this, of model] fig k
  show "node_x fig ! k = 2 * int k" and "node_y fig ! k = 2 * (int k mod 2)"
    by (auto simp: mult.commute)
qed

theorem position_by_index_witness:
  "layout 0 [''A'', ''B'', ''C''] Map.empty ''C'' = Some (4, 0) \<and>
   node_x \<lparr>edge_x = [Some 4, Some 0, None, Some 2, Some 4, None],
           edge_y = [Some 0, Some 0, None, Some 2, Some 0, None],
           node_x = [0, 2, 4], node_y = [0, 2, 0], node_text = [''B'', ''C'', ''A'']\<rparr> ! 1 = 2"
proof
  have "distinct [''A'', ''B'', ''C''] \<and> 2 < length [''A'', ''B'', ''C'']" by simp
  with position_by_index [of "[''A'', ''B'', ''C'']" 2]
  show "layout 0 [''A'', ''B'', ''C''] Map.empty ''C'' = Some (4, 0)"
    by simp
next
  let ?fig = "\<lparr>edge_x = [Some 4, Some 0, None, Some 2, Some 4, None],
           edge_y = [Some 0, Some 0, None, Some 2, Some 0, None],
           node_x = [0, 2, 4], node_y = [0, 2, 0], node_text = [''B'', ''C'', ''A'']\<rparr>"
  have "create_path_diagram remdups () (''A ~ B'' @ newline # ''C ~ A'') = Inr ?fig"
    by (simp add: eval_defs)
  with position_by_index [of _ _ remdups "()" "''A ~ B'' @ newline # ''C ~ A''" ?fig 1]
    set_iteration_remdups
  show "node_x ?fig ! 1 = 2"
    by simp
qed

text \<open>
  C7. A line without the marker adds nothing: wherever it stands among the lines, the
  list of sublists and the loop over the edges are what they are without it, and the
  function returns the same with the line taken out of the text. A text none of whose
  lines contains the marker yields the figure with no node and no edge.
\<close>

theorem no_marker_no_contribution:
  "(tilde \<notin> set l \<longrightarrow>
      sublists (xs @ l # ys) = sublists (xs @ ys) \<and>
      edges pos (xs @ l # ys) acc = edges pos (xs @ ys) acc) \<and>
   (tilde \<notin> set l \<and> newline \<notin> set l \<longrightarrow>
      create_path_diagram order model (a @ newline # l @ newline # b) =
      create_path_diagram order model (a @ newline # b)) \<and>
   (set_iteration order \<and> (\<forall>l \<in> set (split_on newline d). tilde \<notin> set l) \<longrightarrow>
      create_path_diagram order model d =
        Inr \<lparr>edge_x = [], edge_y = [], node_x = [], node_y = [], node_text = []\<rparr>)"
proof (intro conjI impI; (elim conjE)?)
  assume "tilde \<notin> set l"
  then show "sublists (xs @ l # ys) = sublists (xs @ ys)"
    and "edges pos (xs @ l # ys) acc = edges pos (xs @ ys) acc"
    by (rule sublists_skip, rule edges_skip)
next
  assume "tilde \<notin> set l" and "newline \<notin> set l"
  then have "relation_lines (a @ newline # l @ newline # b) = relation_lines (a @ newline # b)"
    by (rule relation_lines_skip)
  then show "create_path_diagram order model (a @ newline # l @ newline # b) =
      create_path_diagram order model (a @ newline # b)"
    by (rule cpd_cong)
next
  assume order: "set_iteration order" and none: "\<forall>l \<in> set (split_on newline d). tilde \<notin> set l"
  from none have no_lines: "relation_lines d = []"
    by (simp add: relation_lines_def filter_empty_conv)
  then have "single_marker d"
    by (simp add: single_marker_def)
  from cpd_ok [OF order this, of model] show "create_path_diagram order model d =
        Inr \<lparr>edge_x = [], edge_y = [], node_x = [], node_y = [], node_text = []\<rparr>"
    by (simp add: node_names_def spec_edges_def no_lines set_iteration_Nil [OF order])
qed

theorem no_marker_no_contribution_witness:
  "create_path_diagram remdups () (''# a comment'' @ [newline, newline]) =
     Inr \<lparr>edge_x = [], edge_y = [], node_x = [], node_y = [], node_text = []\<rparr> \<and>
   create_path_diagram remdups () (''A ~ B'' @ newline # ''# a comment'' @ newline # ''C ~ A'') =
     create_path_diagram remdups () (''A ~ B'' @ newline # ''C ~ A'') \<and>
   sublists [''A ~ B'', ''no marker''] = sublists [''A ~ B'']"
proof (intro conjI)
  have "\<forall>l \<in> set (split_on newline (''# a comment'' @ [newline, newline])). tilde \<notin> set l"
    by simp
  with no_marker_no_contribution [where order = remdups and model = "()"
      and d = "''# a comment'' @ [newline, newline]"]
    set_iteration_remdups
  show "create_path_diagram remdups () (''# a comment'' @ [newline, newline]) =
     Inr \<lparr>edge_x = [], edge_y = [], node_x = [], node_y = [], node_text = []\<rparr>"
    by blast
next
  have "tilde \<notin> set ''# a comment'' \<and> newline \<notin> set ''# a comment''"
    by simp
  with no_marker_no_contribution [where l = "''# a comment''" and order = remdups and model = "()"
      and a = "''A ~ B''" and b = "''C ~ A''"]
  show "create_path_diagram remdups () (''A ~ B'' @ newline # ''# a comment'' @ newline # ''C ~ A'') =
     create_path_diagram remdups () (''A ~ B'' @ newline # ''C ~ A'')"
    by blast
next
  have no_marker: "tilde \<notin> set ''no marker''" by simp
  have "sublists ([''A ~ B''] @ ''no marker'' # []) = sublists ([''A ~ B''] @ [])"
    using no_marker_no_contribution [where l = "''no marker''" and xs = "[''A ~ B'']" and ys = "[]",
        THEN conjunct1, THEN mp, OF no_marker]
    by (rule conjunct1)
  then show "sublists [''A ~ B'', ''no marker''] = sublists [''A ~ B'']"
    by simp
qed

text \<open>
  C8. The right-hand side is one name. In a text whose relation lines contain the marker
  once each, the names of the nodes are exactly the trimmed left parts and the trimmed
  whole right parts of the relation lines; each coordinate list has three entries for
  every relation line, and the entries of the \<open>k\<close>-th relation line are the position of
  its trimmed left part, the position of its trimmed right part and the separator. So
  \<^verbatim>\<open>A ~ B + C\<close> yields the node \<^verbatim>\<open>B + C\<close> and one edge to it.
\<close>

theorem right_side_is_one_node:
  assumes "set_iteration order" and "single_marker d"
  shows "\<exists>fig. create_path_diagram order model d = Inr fig \<and>
      set (node_text fig) = spec_nodes d \<and>
      length (edge_x fig) = 3 * length (relation_lines d) \<and>
      length (edge_y fig) = 3 * length (relation_lines d) \<and>
      (\<forall>k < length (relation_lines d). \<exists>pa pb.
         layout 0 (node_text fig) Map.empty (strip (left_part (relation_lines d ! k))) = Some pa \<and>
         layout 0 (node_text fig) Map.empty (strip (right_part (relation_lines d ! k))) = Some pb \<and>
         take 3 (drop (3 * k) (edge_x fig)) = [Some (fst pa), Some (fst pb), None] \<and>
         take 3 (drop (3 * k) (edge_y fig)) = [Some (snd pa), Some (snd pb), None])"
proof -
  let ?pos = "positions order d"
  let ?fig = "\<lparr>edge_x = concat (map (segment fst ?pos) (spec_edges d)),
          edge_y = concat (map (segment snd ?pos) (spec_edges d)),
          node_x = map (\<lambda>k. int k * 2) [0..<length (node_names order d)],
          node_y = map (\<lambda>k. int k mod 2 * 2) [0..<length (node_names order d)],
          node_text = node_names order d\<rparr>"
  have fig: "create_path_diagram order model d = Inr ?fig"
    using assms by (rule cpd_ok)
  have nodes: "set (node_names order d) = spec_nodes d"
    using assms by (rule set_node_names_single)
  have len: "length (concat (map (segment c ?pos) (spec_edges d))) = 3 * length (relation_lines d)"
    for c
    by (simp add: spec_edges_def length_concat comp_def segment_def sum_list_triv)
  have seg: "\<exists>pa pb.
         ?pos (strip (left_part (relation_lines d ! k))) = Some pa \<and>
         ?pos (strip (right_part (relation_lines d ! k))) = Some pb \<and>
         take 3 (drop (3 * k) (edge_x ?fig)) = [Some (fst pa), Some (fst pb), None] \<and>
         take 3 (drop (3 * k) (edge_y ?fig)) = [Some (snd pa), Some (snd pb), None]"
    if k: "k < length (relation_lines d)" for k
  proof -
    let ?l = "relation_lines d ! k"
    from k have l: "?l \<in> set (relation_lines d)" by simp
    with assms(2) have "count_list ?l tilde = 1"
      unfolding single_marker_def by blast
    then have "second_part ?l = right_part ?l" by (rule split_on_tilde_once(2))
    with terms_in_dom [OF assms(1) l]
    obtain pa pb where pa: "?pos (strip (left_part ?l)) = Some pa"
      and pb: "?pos (strip (right_part ?l)) = Some pb"
      by auto
    from k have k': "k < length (spec_edges d)" and e: "spec_edges d ! k = line_edge ?l"
      by (simp_all add: spec_edges_def)
    have "take 3 (drop (3 * k) (edge_x ?fig)) = [Some (fst pa), Some (fst pb), None]"
      and "take 3 (drop (3 * k) (edge_y ?fig)) = [Some (snd pa), Some (snd pb), None]"
      using segment_nth [OF k', of _ ?pos] pa pb
      by (simp_all add: e segment_def line_edge_def)
    with pa pb show ?thesis by blast
  qed
  show ?thesis
    by (rule exI [of _ ?fig]) (use fig nodes len seg in \<open>simp add: positions_def [symmetric]\<close>)
qed

theorem right_side_is_one_node_witness:
  "create_path_diagram remdups () ''A ~ B + C'' =
     Inr \<lparr>edge_x = [Some 0, Some 2, None], edge_y = [Some 0, Some 2, None],
          node_x = [0, 2], node_y = [0, 2], node_text = [''A'', ''B + C'']\<rparr> \<and>
   spec_nodes ''A ~ B + C'' = {''A'', ''B + C''} \<and>
   (\<exists>fig. create_path_diagram remdups () ''A ~ B + C'' = Inr fig \<and>
      set (node_text fig) = spec_nodes ''A ~ B + C'' \<and>
      length (edge_x fig) = 3 * length (relation_lines ''A ~ B + C'') \<and>
      length (edge_y fig) = 3 * length (relation_lines ''A ~ B + C'') \<and>
      (\<forall>k < length (relation_lines ''A ~ B + C''). \<exists>pa pb.
         layout 0 (node_text fig) Map.empty (strip (left_part (relation_lines ''A ~ B + C'' ! k))) =
           Some pa \<and>
         layout 0 (node_text fig) Map.empty (strip (right_part (relation_lines ''A ~ B + C'' ! k))) =
           Some pb \<and>
         take 3 (drop (3 * k) (edge_x fig)) = [Some (fst pa), Some (fst pb), None] \<and>
         take 3 (drop (3 * k) (edge_y fig)) = [Some (snd pa), Some (snd pb), None]))"
proof (intro conjI)
  show "create_path_diagram remdups () ''A ~ B + C'' =
     Inr \<lparr>edge_x = [Some 0, Some 2, None], edge_y = [Some 0, Some 2, None],
          node_x = [0, 2], node_y = [0, 2], node_text = [''A'', ''B + C'']\<rparr>"
    by (simp add: eval_defs)
  show "spec_nodes ''A ~ B + C'' = {''A'', ''B + C''}"
    by (auto simp: spec_nodes_def spec_edges_def relation_lines_def line_edge_def left_part_def
        right_part_def strip_def is_space_def)
  have "single_marker ''A ~ B + C''"
    by (simp add: single_marker_def relation_lines_def)
  with set_iteration_remdups show "\<exists>fig. create_path_diagram remdups () ''A ~ B + C'' = Inr fig \<and>
      set (node_text fig) = spec_nodes ''A ~ B + C'' \<and>
      length (edge_x fig) = 3 * length (relation_lines ''A ~ B + C'') \<and>
      length (edge_y fig) = 3 * length (relation_lines ''A ~ B + C'') \<and>
      (\<forall>k < length (relation_lines ''A ~ B + C''). \<exists>pa pb.
         layout 0 (node_text fig) Map.empty (strip (left_part (relation_lines ''A ~ B + C'' ! k))) =
           Some pa \<and>
         layout 0 (node_text fig) Map.empty (strip (right_part (relation_lines ''A ~ B + C'' ! k))) =
           Some pb \<and>
         take 3 (drop (3 * k) (edge_x fig)) = [Some (fst pa), Some (fst pb), None] \<and>
         take 3 (drop (3 * k) (edge_y fig)) = [Some (snd pa), Some (snd pb), None])"
    by (rule right_side_is_one_node)
qed

text \<open>
  C9. When every line that contains the marker contains it once, the node list is
  computed, both lookups in the dictionary of positions succeed for the two trimmed
  parts of every relation line, and the function returns a figure.
\<close>

theorem lookups_never_fail:
  assumes "set_iteration order" and "single_marker d"
  shows "\<exists>nodes. nodes_of order d = Inr nodes \<and>
      (\<forall>l \<in> set (relation_lines d). \<exists>a b ps pe.
          unpack2 (split_on tilde l) = Inr (a, b) \<and>
          lookup (layout 0 nodes Map.empty) (strip a) = Inr ps \<and>
          lookup (layout 0 nodes Map.empty) (strip b) = Inr pe) \<and>
      (\<exists>fig. create_path_diagram order model d = Inr fig)"
proof -
  have nodes: "nodes_of order d = Inr (node_names order d)"
    by (rule nodes_of_names)
  have found: "\<exists>a b ps pe.
      unpack2 (split_on tilde l) = Inr (a, b) \<and>
      lookup (layout 0 (node_names order d) Map.empty) (strip a) = Inr ps \<and>
      lookup (layout 0 (node_names order d) Map.empty) (strip b) = Inr pe"
    if l: "l \<in> set (relation_lines d)" for l
  proof -
    from assms(2) l have once: "count_list l tilde = 1"
      by (simp add: single_marker_def)
    from terms_in_dom [OF assms(1) l] split_on_tilde_once(2) [OF once]
    obtain ps pe where "positions order d (strip (left_part l)) = Some ps"
      and "positions order d (strip (right_part l)) = Some pe"
      by auto
    then show ?thesis
      by (simp add: split_on_tilde_once(1) [OF once] lookup_def positions_def)
  qed
  have "\<exists>fig. create_path_diagram order model d = Inr fig"
    by (simp add: cpd_ok [OF assms])
  with nodes found show ?thesis by blast
qed

theorem lookups_never_fail_witness:
  "\<exists>nodes. nodes_of remdups (''A ~ B'' @ newline # ''C ~ A'') = Inr nodes \<and>
      (\<forall>l \<in> set (relation_lines (''A ~ B'' @ newline # ''C ~ A'')). \<exists>a b ps pe.
          unpack2 (split_on tilde l) = Inr (a, b) \<and>
          lookup (layout 0 nodes Map.empty) (strip a) = Inr ps \<and>
          lookup (layout 0 nodes Map.empty) (strip b) = Inr pe) \<and>
      (\<exists>fig. create_path_diagram remdups () (''A ~ B'' @ newline # ''C ~ A'') = Inr fig)"
proof -
  have "single_marker (''A ~ B'' @ newline # ''C ~ A'')"
    by (simp add: single_marker_def relation_lines_def)
  with set_iteration_remdups show ?thesis
    by (rule lookups_never_fail)
qed

text \<open>
  C10, as the code has it. A call leaves the globals as they were, whether it returns or
  raises, and what it returns or raises is the value of \<open>create_path_diagram\<close> on the
  text: for one order of the set it is the same for any two values of \<open>model\<close>, of any
  types, and for any other state of the program. The order in which the Python set
  yields the names is not given by the text. Two orders agree on the exception raised and,
  when a figure is returned, on the set of the node names, on the coordinates of the
  markers and on the lengths of the edge lists; the node list itself and the coordinates
  of the edges can differ.
\<close>

theorem model_argument_not_consulted:
  "snd (call_create_path_diagram order m1 g) = g \<and>
   fst (call_create_path_diagram order m1 (d, r1)) = create_path_diagram order m1 d \<and>
   fst (call_create_path_diagram order m1 (d, r1)) =
     fst (call_create_path_diagram order m2 (d, r2)) \<and>
   create_path_diagram order m1 d = create_path_diagram order m2 d \<and>
   (set_iteration o1 \<and> set_iteration o2 \<longrightarrow>
      create_path_diagram o1 m1 d = Inl ValueError \<and>
      create_path_diagram o2 m2 d = Inl ValueError \<or>
      (\<exists>f1 f2. create_path_diagram o1 m1 d = Inr f1 \<and> create_path_diagram o2 m2 d = Inr f2 \<and>
         set (node_text f1) = set (node_text f2) \<and>
         node_x f1 = node_x f2 \<and> node_y f1 = node_y f2 \<and>
         length (edge_x f1) = length (edge_x f2) \<and> length (edge_y f1) = length (edge_y f2)))"
proof (intro conjI impI; (elim conjE)?)
  show "snd (call_create_path_diagram order m1 g) = g"
    by (rule call_globals)
  show "fst (call_create_path_diagram order m1 (d, r1)) = create_path_diagram order m1 d"
    by (rule call_result)
  show same: "create_path_diagram order m1 d = create_path_diagram order m2 d"
    by (rule cpd_cong) (rule refl)
  show "fst (call_create_path_diagram order m1 (d, r1)) =
     fst (call_create_path_diagram order m2 (d, r2))"
    by (simp add: call_result same)
next
  assume o1: "set_iteration o1" and o2: "set_iteration o2"
  show "create_path_diagram o1 m1 d = Inl ValueError \<and>
      create_path_diagram o2 m2 d = Inl ValueError \<or>
      (\<exists>f1 f2. create_path_diagram o1 m1 d = Inr f1 \<and> create_path_diagram o2 m2 d = Inr f2 \<and>
         set (node_text f1) = set (node_text f2) \<and>
         node_x f1 = node_x f2 \<and> node_y f1 = node_y f2 \<and>
         length (edge_x f1) = length (edge_x f2) \<and> length (edge_y f1) = length (edge_y f2))"
  proof (cases "single_marker d")
    case False
    with o1 o2 show ?thesis by (simp add: cpd_fail)
  next
    case True
    have "length (node_names o1 d) = length (node_names o2 d)"
      unfolding node_names_def using o1 o2 by (rule length_set_iteration)
    moreover have "set (node_names o1 d) = set (node_names o2 d)"
      by (simp add: set_node_names_single o1 o2 True)
    ultimately show ?thesis
      by (simp add: cpd_ok [OF o1 True] cpd_ok [OF o2 True] length_segments)
  qed
qed

theorem model_argument_not_consulted_witness:
  "snd (call_create_path_diagram remdups () (''A ~ B ~ C'', True)) = (''A ~ B ~ C'', True) \<and>
   fst (call_create_path_diagram remdups () (''A ~ B'', True)) =
     create_path_diagram remdups () ''A ~ B'' \<and>
   fst (call_create_path_diagram remdups () (''A ~ B'', True)) =
     fst (call_create_path_diagram remdups [False] (''A ~ B'', ''other'')) \<and>
   create_path_diagram remdups () ''A ~ B'' = create_path_diagram remdups [False] ''A ~ B'' \<and>
   (create_path_diagram remdups () ''A ~ B'' = Inl ValueError \<and>
      create_path_diagram (rev \<circ> remdups) [False] ''A ~ B'' = Inl ValueError \<or>
    (\<exists>f1 f2. create_path_diagram remdups () ''A ~ B'' = Inr f1 \<and>
         create_path_diagram (rev \<circ> remdups) [False] ''A ~ B'' = Inr f2 \<and>
         set (node_text f1) = set (node_text f2) \<and>
         node_x f1 = node_x f2 \<and> node_y f1 = node_y f2 \<and>
         length (edge_x f1) = length (edge_x f2) \<and> length (edge_y f1) = length (edge_y f2)))"
proof -
  note raised = model_argument_not_consulted [where order = remdups and ?m1.0 = "()"
      and g = "(''A ~ B ~ C'', True)" and d = "''A ~ B''" and ?r1.0 = True
      and ?m2.0 = "[False]" and ?r2.0 = "''other''" and ?o1.0 = remdups
      and ?o2.0 = "rev \<circ> remdups"]
  note orders = conjI [OF set_iteration_remdups set_iteration_rev_remdups]
  from raised [THEN conjunct1]
    raised [THEN conjunct2, THEN conjunct1]
    raised [THEN conjunct2, THEN conjunct2, THEN conjunct1]
    raised [THEN conjunct2, THEN conjunct2, THEN conjunct2, THEN conjunct1]
    raised [THEN conjunct2, THEN conjunct2, THEN conjunct2, THEN conjunct2, THEN mp, OF orders]
  show ?thesis by (intro conjI)
qed

theorem set_order_counterexample:
  "set_iteration remdups \<and> set_iteration (rev \<circ> remdups) \<and>
   create_path_diagram remdups () ''A ~ B'' =
     Inr \<lparr>edge_x = [Some 0, Some 2, None], edge_y = [Some 0, Some 2, None],
          node_x = [0, 2], node_y = [0, 2], node_text = [''A'', ''B'']\<rparr> \<and>
   create_path_diagram (rev \<circ> remdups) () ''A ~ B'' =
     Inr \<lparr>edge_x = [Some 2, Some 0, None], edge_y = [Some 2, Some 0, None],
          node_x = [0, 2], node_y = [0, 2], node_text = [''B'', ''A'']\<rparr> \<and>
   create_path_diagram remdups () ''A ~ B'' \<noteq> create_path_diagram (rev \<circ> remdups) () ''A ~ B''"
  by (simp add: set_iteration_remdups set_iteration_rev_remdups eval_defs)

end
